theory Spec2Isabelle
  imports Complex_Main "HOL-Library.AList" "HOL-Library.Sublist"
begin

section \<open>Python values\<close>

text \<open>
  A Python \<open>str\<close> is represented by its UTF-8 encoding, one \<open>char\<close> per byte, so
  \<open>s.encode('utf-8')\<close> and \<open>b.decode('utf-8')\<close> of valid text are the identity. Equality,
  splitting at the ASCII space and the search for an ASCII substring agree on both
  representations.
\<close>

datatype pyfloat = Finite rat | NaN | PosInf | NegInf

text \<open>
  What \<open>json.loads\<close> returns. A \<open>dict\<close> is an association list in insertion order;
  \<open>map_of\<close> reads it and \<open>AList.update\<close> writes it (an existing key keeps its place, a
  new key goes to the end), as a Python \<open>dict\<close> does.
\<close>

datatype json =
    JNull
  | JBool bool
  | JInt int
  | JFloat pyfloat
  | JStr string
  | JArr "json list"
  | JObj "(string \<times> json) list"

datatype exn =
    TypeError
  | KeyError string
  | ValueError
  | AttributeError
  | RecursionError
  | AssertionError
  | NoBrokersAvailable
  | MaterializeError string

text \<open>\<open>v == k\<close> for an \<open>int\<close> \<open>k\<close>: \<open>bool\<close> is a subclass of \<open>int\<close>, a float is
  compared by its exact value.\<close>

fun py_eq_int :: "json \<Rightarrow> int \<Rightarrow> bool" where
  "py_eq_int (JInt n) k = (n = k)"
| "py_eq_int (JBool b) k = ((if b then 1 else 0) = k)"
| "py_eq_int (JFloat (Finite r)) k = (r = of_int k)"
| "py_eq_int _ k = False"

text \<open>\<open>v == m\<close> where \<open>m\<close> is a \<open>str\<close> or \<open>None\<close>.\<close>

fun py_eq_optstr :: "json \<Rightarrow> string option \<Rightarrow> bool" where
  "py_eq_optstr (JStr s) (Some t) = (s = t)"
| "py_eq_optstr JNull None = True"
| "py_eq_optstr _ _ = False"

text \<open>\<open>k in v\<close> for a \<open>str\<close> \<open>k\<close>: key membership in a dict, element membership in a
  list, substring test in a str, \<open>TypeError\<close> otherwise.\<close>

fun py_in :: "string \<Rightarrow> json \<Rightarrow> exn + bool" where
  "py_in k (JObj kvs) = Inr (map_of kvs k \<noteq> None)"
| "py_in k (JArr xs) = Inr (List.member xs (JStr k))"
| "py_in k (JStr s) = Inr (sublist k s)"
| "py_in k _ = Inl TypeError"

text \<open>\<open>v[k]\<close> for a \<open>str\<close> \<open>k\<close>.\<close>

fun py_getitem :: "json \<Rightarrow> string \<Rightarrow> exn + json" where
  "py_getitem (JObj kvs) k = (case map_of kvs k of None \<Rightarrow> Inl (KeyError k) | Some v \<Rightarrow> Inr v)"
| "py_getitem _ k = Inl TypeError"

text \<open>\<open>v[k] = x\<close> for a \<open>str\<close> \<open>k\<close>.\<close>

fun py_setitem :: "json \<Rightarrow> string \<Rightarrow> json \<Rightarrow> exn + json" where
  "py_setitem (JObj kvs) k x = Inr (JObj (AList.update k x kvs))"
| "py_setitem _ k x = Inl TypeError"

text \<open>The items a \<open>for\<close> loop over \<open>v\<close> visits. A str yields its characters, each a str
  (for text outside ASCII the count differs from Python's, which no caller observes:
  every such item makes the caller raise \<open>TypeError\<close>).\<close>

fun py_iter :: "json \<Rightarrow> exn + json list" where
  "py_iter (JArr xs) = Inr xs"
| "py_iter (JObj kvs) = Inr (map (\<lambda>kv. JStr (fst kv)) kvs)"
| "py_iter (JStr s) = Inr (map (\<lambda>c. JStr [c]) s)"
| "py_iter _ = Inl TypeError"

text \<open>\<open>s.split(sep)\<close> with an explicit one-character separator.\<close>

fun split_acc :: "char \<Rightarrow> string \<Rightarrow> string \<Rightarrow> string list" where
  "split_acc sep cur [] = [cur]"
| "split_acc sep cur (c # cs) =
     (if c = sep then cur # split_acc sep [] cs else split_acc sep (cur @ [c]) cs)"

definition py_split :: "string \<Rightarrow> char \<Rightarrow> string list" where
  "py_split s sep = split_acc sep [] s"

section \<open>Topics\<close>

definition topics :: "string list" where
  "topics = [''addOffer'', ''buyOffer'', ''profit'', ''updateOffer'', ''updates'', ''salesPerMinutes'',
             ''cumulativeAmountBasedMarketshare'', ''cumulativeRevenueBasedMarketshare'',
             ''marketSituation'', ''revenuePerMinute'', ''revenuePerHour'', ''profitPerMinute'',
             ''inventory_level'']"

section \<open>KafkaHandler\<close>

text \<open>A record delivered by the consumer: \<open>msg.topic\<close>, \<open>msg.timestamp\<close>, \<open>msg.value\<close>.
  The value is a byte string, or \<open>None\<close> for a record written without a value.\<close>

record message =
  msg_topic :: string
  msg_timestamp :: int
  msg_value :: "string option"

text \<open>\<open>json.loads(msg.value.decode('utf-8'))\<close>. The parameter \<open>loads\<close> is
  \<open>json.loads(b.decode('utf-8'))\<close> on a byte string: the parsed value, or the exception
  raised, where \<open>ValueError\<close> stands for itself and its subclasses
  \<open>UnicodeDecodeError\<close> and \<open>JSONDecodeError\<close>. \<open>None\<close> has no \<open>decode\<close>.\<close>

definition decode_value :: "(string \<Rightarrow> exn + json) \<Rightarrow> string option \<Rightarrow> exn + json" where
  "decode_value loads v = (case v of None \<Rightarrow> Inl AttributeError | Some bs \<Rightarrow> loads bs)"

text \<open>\<open>collections.deque(maxlen=n).append(x)\<close>: the item is added on the right and, when the
  deque then holds more than \<open>n\<close> items, the leftmost one is removed.\<close>

definition deque_append :: "nat \<Rightarrow> 'a list \<Rightarrow> 'a \<Rightarrow> 'a list" where
  "deque_append maxlen dq x = (let ys = dq @ [x] in if length ys > maxlen then tl ys else ys)"

text \<open>What is sent over the socket: the text \<open>json.dumps(output)\<close> of one message, or a
  list of messages.\<close>

datatype payload = Dumped json | Listed "json list"

text \<open>\<open>socketio.emit\<close> on the server object reaches every connected client;
  \<open>flask_socketio.emit\<close> inside an event handler answers the client that caused the event.\<close>

datatype event = Broadcast string payload | Reply string payload

record handler =
  dumps :: "(string \<times> json list) list"
  sent :: "event list"

text \<open>The partitioned log as far as the consumer shows it: for the partition 0 of each
  topic the earliest offset still held and the offset the next record will get (offsets
  are never negative). Then the consumer: its assignment and its position in each
  assigned partition, \<open>None\<close> before any seek.\<close>

record broker =
  beginning_offset :: "string \<Rightarrow> nat"
  log_end :: "string \<Rightarrow> nat"

record consumer =
  assigned :: "string list"
  positions :: "string \<rightharpoonup> int"

definition assign :: "string list \<Rightarrow> consumer \<Rightarrow> consumer" where
  "assign ps c = \<lparr>assigned = ps, positions = Map.empty\<rparr>"

definition seek_to_end :: "broker \<Rightarrow> consumer \<Rightarrow> consumer" where
  "seek_to_end b c =
     c\<lparr>positions := (\<lambda>t. if t \<in> set (assigned c) then Some (int (log_end b t)) else positions c t)\<rparr>"

definition seek_to_beginning :: "broker \<Rightarrow> consumer \<Rightarrow> consumer" where
  "seek_to_beginning b c =
     c\<lparr>positions := (\<lambda>t. if t \<in> set (assigned c) then Some (int (beginning_offset b t)) else positions c t)\<rparr>"

definition position :: "consumer \<Rightarrow> string \<Rightarrow> exn + int" where
  "position c t =
     (if t \<in> set (assigned c)
      then (case positions c t of None \<Rightarrow> Inl AssertionError | Some p \<Rightarrow> Inr p)
      else Inl AssertionError)"

definition seek :: "string \<Rightarrow> int \<Rightarrow> consumer \<Rightarrow> exn + consumer" where
  "seek t off c =
     (if 0 \<le> off \<and> t \<in> set (assigned c) then Inr (c\<lparr>positions := (positions c)(t \<mapsto> off)\<rparr>)
      else Inl AssertionError)"

text \<open>The first loop of \<open>KafkaHandler.__init__\<close>: one empty deque per topic, and the end
  of each partition recorded in the local \<open>end_offset\<close>.\<close>

fun init_scan :: "broker \<Rightarrow> string list \<Rightarrow> (string \<times> json list) list \<Rightarrow> (string \<rightharpoonup> int) \<Rightarrow> consumer
    \<Rightarrow> exn + ((string \<times> json list) list \<times> (string \<rightharpoonup> int) \<times> consumer)" where
  "init_scan b [] d eo c = Inr (d, eo, c)"
| "init_scan b (t # ts) d eo c =
     (let d' = AList.update t [] d;
          c1 = assign [t] c;
          c2 = seek_to_end b c1
      in case position c2 t of
           Inl e \<Rightarrow> Inl e
         | Inr p \<Rightarrow> init_scan b ts d' (eo(t \<mapsto> p)) c2)"

text \<open>The second loop: every partition is moved back by at most 100 records.\<close>

fun init_seek :: "string list \<Rightarrow> (string \<rightharpoonup> int) \<Rightarrow> consumer \<Rightarrow> exn + consumer" where
  "init_seek [] eo c = Inr c"
| "init_seek (t # ts) eo c =
     (case eo t of
        None \<Rightarrow> Inl (KeyError t)
      | Some e \<Rightarrow>
          (case seek t (max 0 (e - 100)) c of
             Inl x \<Rightarrow> Inl x
           | Inr c' \<Rightarrow> init_seek ts eo c'))"

text \<open>\<open>KafkaHandler.__init__\<close> up to the start of the thread. The local \<open>end_offset\<close> is
  returned with the handler and the consumer so that it can be spoken about.\<close>

definition KafkaHandler_init :: "broker \<Rightarrow> exn + (handler \<times> (string \<rightharpoonup> int) \<times> consumer)" where
  "KafkaHandler_init b =
     (case init_scan b topics [] Map.empty \<lparr>assigned = [], positions = Map.empty\<rparr> of
        Inl e \<Rightarrow> Inl e
      | Inr (d, eo, c) \<Rightarrow>
          (case init_seek topics eo (assign topics c) of
             Inl e \<Rightarrow> Inl e
           | Inr c' \<Rightarrow> Inr (\<lparr>dumps = d, sent = []\<rparr>, eo, c')))"

text \<open>\<open>'http_code' in msg_json and msg_json['http_code'] != 200\<close>.\<close>

definition http_code_rejected :: "json \<Rightarrow> exn + bool" where
  "http_code_rejected j =
     (case py_in ''http_code'' j of
        Inl e \<Rightarrow> Inl e
      | Inr False \<Rightarrow> Inr False
      | Inr True \<Rightarrow>
          (case py_getitem j ''http_code'' of
             Inl e \<Rightarrow> Inl e
           | Inr v \<Rightarrow> Inr (\<not> py_eq_int v 200)))"

definition make_output :: "message \<Rightarrow> json \<Rightarrow> json" where
  "make_output msg j =
     JObj [(''topic'', JStr (msg_topic msg)), (''timestamp'', JInt (msg_timestamp msg)), (''value'', j)]"

text \<open>The body of the loop of \<open>KafkaHandler.run\<close>. Every exception is caught and
  printed, and the loop goes on with the state as it is at that point.\<close>

definition run_step :: "(string \<Rightarrow> exn + json) \<Rightarrow> handler \<Rightarrow> message \<Rightarrow> handler" where
  "run_step loads h msg =
     (case decode_value loads (msg_value msg) of
        Inl e \<Rightarrow> h
      | Inr msg_json \<Rightarrow>
          (case http_code_rejected msg_json of
             Inl e \<Rightarrow> h
           | Inr True \<Rightarrow> h
           | Inr False \<Rightarrow>
               (let output = make_output msg msg_json in
                case map_of (dumps h) (msg_topic msg) of
                  None \<Rightarrow> h
                | Some dq \<Rightarrow>
                    h\<lparr>dumps := AList.update (msg_topic msg) (deque_append 100 dq output) (dumps h),
                      sent := sent h @ [Broadcast (msg_topic msg) (Dumped output)]\<rparr>)))"

text \<open>\<open>KafkaHandler.run\<close> over the records the consumer has delivered so far.\<close>

definition run :: "(string \<Rightarrow> exn + json) \<Rightarrow> handler \<Rightarrow> message list \<Rightarrow> handler" where
  "run loads h msgs = foldl (run_step loads) h msgs"

text \<open>\<open>KafkaHandler.on_connect\<close>.\<close>

definition on_connect :: "handler \<Rightarrow> handler" where
  "on_connect h =
     (if dumps h \<noteq> []
      then h\<lparr>sent := sent h @ map (\<lambda>(t, dq). Reply t (Listed dq)) (dumps h)\<rparr>
      else h)"

section \<open>Export\<close>

text \<open>\<open>base64.b64encode\<close> on a byte string.\<close>

definition b64_alphabet :: string where
  "b64_alphabet = ''ABCDEFGHIJKLMNOPQRSTUVWXYZabcdefghijklmnopqrstuvwxyz0123456789+/''"

definition b64_char :: "nat \<Rightarrow> char" where
  "b64_char n = b64_alphabet ! (n mod 64)"

fun b64_groups :: "nat list \<Rightarrow> string" where
  "b64_groups [] = []"
| "b64_groups [a] = [b64_char (a div 4), b64_char ((a mod 4) * 16), CHR ''='', CHR ''='']"
| "b64_groups [a, b] =
     [b64_char (a div 4), b64_char ((a mod 4) * 16 + b div 16), b64_char ((b mod 16) * 4), CHR ''='']"
| "b64_groups (a # b # c # bs) =
     [b64_char (a div 4), b64_char ((a mod 4) * 16 + b div 16),
      b64_char ((b mod 16) * 4 + c div 64), b64_char (c mod 64)] @ b64_groups bs"

definition b64encode :: "string \<Rightarrow> string" where
  "b64encode bs = b64_groups (map of_char bs)"

text \<open>\<open>calculate_id\<close>. The parameter \<open>sha256\<close> is \<open>hashlib.sha256(b).digest()\<close> as a
  function from byte strings to byte strings.\<close>

definition calculate_id :: "(string \<Rightarrow> string) \<Rightarrow> string \<Rightarrow> string" where
  "calculate_id sha256 token = b64encode (sha256 token)"

text \<open>\<open>market_situation_shaper\<close>. The body of the inner loop returns the offer as it is
  after the two assignments. The offers come from \<open>json.loads\<close>, one object each, so no
  assignment is visible through another name.\<close>

definition inject_offer :: "json \<Rightarrow> json \<Rightarrow> exn + json" where
  "inject_offer situation offer =
     (case py_getitem situation ''timestamp'' of
        Inl e \<Rightarrow> Inl e
      | Inr ts \<Rightarrow>
          (case py_setitem offer ''timestamp'' ts of
             Inl e \<Rightarrow> Inl e
           | Inr offer1 \<Rightarrow>
               (case py_in ''merchant_id'' situation of
                  Inl e \<Rightarrow> Inl e
                | Inr False \<Rightarrow> Inr offer1
                | Inr True \<Rightarrow>
                    (case py_getitem situation ''merchant_id'' of
                       Inl e \<Rightarrow> Inl e
                     | Inr m \<Rightarrow> py_setitem offer1 ''triggering_merchant_id'' m))))"

fun expand_offers :: "json \<Rightarrow> json list \<Rightarrow> json list \<Rightarrow> exn + json list" where
  "expand_offers situation [] expanded_offers = Inr expanded_offers"
| "expand_offers situation (offer # rest) expanded_offers =
     (case inject_offer situation offer of
        Inl e \<Rightarrow> Inl e
      | Inr offer' \<Rightarrow> expand_offers situation rest (expanded_offers @ [offer']))"

fun shaper_loop :: "json list \<Rightarrow> json list \<Rightarrow> exn + json list" where
  "shaper_loop [] expanded_offers = Inr expanded_offers"
| "shaper_loop (situation # rest) expanded_offers =
     (case py_getitem situation ''offers'' of
        Inl e \<Rightarrow> Inl e
      | Inr offers \<Rightarrow>
          (case py_iter offers of
             Inl e \<Rightarrow> Inl e
           | Inr items \<Rightarrow>
               (case expand_offers situation items expanded_offers of
                  Inl e \<Rightarrow> Inl e
                | Inr expanded_offers' \<Rightarrow> shaper_loop rest expanded_offers')))"

text \<open>The rows handed to \<open>pd.DataFrame\<close>.\<close>

definition market_situation_shaper :: "json list \<Rightarrow> exn + json list" where
  "market_situation_shaper list_of_msgs = shaper_loop list_of_msgs []"

text \<open>What an export request meets outside the program: the two library functions, the
  broker, the records the iteration over a consumer placed at an offset yields before its
  timeout, the text \<open>str(int(time.time()))\<close>, the construction and writing of the data
  frame (\<open>None\<close> when it succeeds, the exception's text otherwise) and \<open>str(e)\<close>.\<close>

record world =
  sha256 :: "string \<Rightarrow> string"
  json_loads :: "string \<Rightarrow> exn + json"
  brokers_available :: bool
  the_broker :: broker
  fetch :: "string \<Rightarrow> int \<Rightarrow> message list"
  time_str :: string
  materialize :: "string \<Rightarrow> json list \<Rightarrow> string option"
  exn_str :: "exn \<Rightarrow> string"

text \<open>What a test double of the libraries observes of one request.\<close>

datatype xevent =
    HashCall string
  | ConsumerOpen
  | Seek string int
  | ConsumerClose
  | ToCsv string "json list"

text \<open>\<open>auth_header.split(' ')[-1] if auth_header else None\<close>.\<close>

definition merchant_token_of :: "string option \<Rightarrow> string option" where
  "merchant_token_of auth_header =
     (case auth_header of
        None \<Rightarrow> None
      | Some h \<Rightarrow> if h \<noteq> [] then Some (last (py_split h (CHR '' ''))) else None)"

text \<open>\<open>calculate_id(merchant_token) if merchant_token else None\<close>, with the calls of the
  hasher.\<close>

definition merchant_id_of :: "(string \<Rightarrow> string) \<Rightarrow> string option \<Rightarrow> string option \<times> xevent list" where
  "merchant_id_of h merchant_token =
     (case merchant_token of
        None \<Rightarrow> (None, [])
      | Some t \<Rightarrow> if t \<noteq> [] then (Some (calculate_id h t), [HashCall t]) else (None, []))"

text \<open>\<open>'merchant_id' not in msg_json or msg_json['merchant_id'] == merchant_id\<close>.\<close>

definition merchant_filter :: "json \<Rightarrow> string option \<Rightarrow> exn + bool" where
  "merchant_filter msg_json merchant_id =
     (case py_in ''merchant_id'' msg_json of
        Inl e \<Rightarrow> Inl e
      | Inr False \<Rightarrow> Inr True
      | Inr True \<Rightarrow>
          (case py_getitem msg_json ''merchant_id'' of
             Inl e \<Rightarrow> Inl e
           | Inr v \<Rightarrow> Inr (py_eq_optstr v merchant_id)))"

definition max_messages :: int where
  "max_messages = 10 ^ 5"

text \<open>The \<open>try\<close> block inside the loop over the consumer: the list \<open>msgs\<close> after it, or
  the exception it raises.\<close>

definition export_body :: "(string \<Rightarrow> exn + json) \<Rightarrow> string option \<Rightarrow> message \<Rightarrow> json list
    \<Rightarrow> exn + json list" where
  "export_body loads merchant_id msg msgs =
     (case decode_value loads (msg_value msg) of
        Inl e \<Rightarrow> Inl e
      | Inr msg_json \<Rightarrow>
          (case merchant_filter msg_json merchant_id of
             Inl e \<Rightarrow> Inl e
           | Inr True \<Rightarrow> Inr (msgs @ [msg_json])
           | Inr False \<Rightarrow> Inr msgs))"

text \<open>The loop over the consumer. A \<open>ValueError\<close> is caught inside the loop and the loop
  goes on; any other exception leaves it.\<close>

fun export_loop :: "(string \<Rightarrow> exn + json) \<Rightarrow> string option \<Rightarrow> int \<Rightarrow> int \<Rightarrow> message list
    \<Rightarrow> json list \<Rightarrow> exn + json list" where
  "export_loop loads merchant_id end_offset offset [] msgs = Inr msgs"
| "export_loop loads merchant_id end_offset offset (msg # rest) msgs =
     (if offset \<ge> end_offset then Inr msgs
      else
        (case export_body loads merchant_id msg msgs of
           Inl e \<Rightarrow>
             if e = ValueError then export_loop loads merchant_id end_offset (offset + 1) rest msgs
             else Inl e
         | Inr msgs' \<Rightarrow> export_loop loads merchant_id end_offset (offset + 1) rest msgs'))"

text \<open>From the assignment of the partition to the seek to the start of the window.\<close>

definition export_window :: "broker \<Rightarrow> string \<Rightarrow> exn + (int \<times> int \<times> consumer)" where
  "export_window b topic =
     (let c1 = assign [topic] \<lparr>assigned = [], positions = Map.empty\<rparr>;
          c2 = seek_to_beginning b c1
      in case position c2 topic of
           Inl e \<Rightarrow> Inl e
         | Inr start_offset \<Rightarrow>
             (let c3 = seek_to_end b c2
              in case position c3 topic of
                   Inl e \<Rightarrow> Inl e
                 | Inr end_offset \<Rightarrow>
                     (let offset = max start_offset (end_offset - max_messages)
                      in case seek topic offset c3 of
                           Inl e \<Rightarrow> Inl e
                         | Inr c4 \<Rightarrow> Inr (offset, end_offset, c4))))"

text \<open>The \<open>try\<close> block: the file path on success, the exception otherwise, and what the
  libraries were asked to do.\<close>

definition export_try :: "world \<Rightarrow> string option \<Rightarrow> string \<Rightarrow> (exn + string) \<times> xevent list" where
  "export_try w merchant_id topic =
     (if \<not> brokers_available w then (Inl NoBrokersAvailable, [ConsumerOpen])
      else
        (case export_window (the_broker w) topic of
           Inl e \<Rightarrow> (Inl e, [ConsumerOpen])
         | Inr (offset, end_offset, c) \<Rightarrow>
             (case export_loop (json_loads w) merchant_id end_offset offset (fetch w topic offset) [] of
                Inl e \<Rightarrow> (Inl e, [ConsumerOpen, Seek topic offset])
              | Inr msgs \<Rightarrow>
                  (case (if topic = ''marketSituation'' then market_situation_shaper msgs else Inr msgs) of
                     Inl e \<Rightarrow> (Inl e, [ConsumerOpen, Seek topic offset, ConsumerClose])
                   | Inr rows \<Rightarrow>
                       (let filepath = ''data/'' @ topic @ ''_'' @ time_str w @ ''.csv''
                        in case materialize w filepath rows of
                             Some e \<Rightarrow>
                               (Inl (MaterializeError e), [ConsumerOpen, Seek topic offset, ConsumerClose])
                           | None \<Rightarrow>
                               (Inr filepath,
                                [ConsumerOpen, Seek topic offset, ConsumerClose, ToCsv filepath rows]))))))"

record export_result =
  response :: "(string \<times> string) list"
  trace :: "xevent list"

text \<open>\<open>KafkaReverseProxy.export_csv_for_topic\<close>; \<open>response\<close> is the dict given to
  \<open>json.dumps\<close>.\<close>

definition export_csv_for_topic :: "world \<Rightarrow> string option \<Rightarrow> string \<Rightarrow> export_result" where
  "export_csv_for_topic w auth_header topic =
     (let merchant_token = merchant_token_of auth_header;
          (merchant_id, hashed) = merchant_id_of (sha256 w) merchant_token
      in if topic \<notin> set topics
         then \<lparr>response = [(''error'', ''unknown topic'')], trace = hashed\<rparr>
         else
           (case export_try w merchant_id topic of
              (Inl e, tr) \<Rightarrow>
                \<lparr>response = [(''error'', ''failed with: '' @ exn_str w e)], trace = hashed @ tr\<rparr>
            | (Inr filepath, tr) \<Rightarrow> \<lparr>response = [(''url'', filepath)], trace = hashed @ tr\<rparr>))"

section \<open>Concrete inputs\<close>

text \<open>\<open>json.loads\<close> on the few texts the examples use; every other text is taken as
  malformed.\<close>

definition loads_table :: "string \<Rightarrow> exn + json" where
  "loads_table bs =
     (case map_of
        [(''{}'', JObj []),
         (''{\"merchant_id\": null}'', JObj [(''merchant_id'', JNull)]),
         (''{\"http_code\": 404}'', JObj [(''http_code'', JInt 404)]),
         (''{\"http_code\": 200}'', JObj [(''http_code'', JInt 200)])] bs of
        None \<Rightarrow> Inl ValueError
      | Some j \<Rightarrow> Inr j)"

definition demo_broker :: broker where
  "demo_broker = \<lparr>beginning_offset = (\<lambda>t. 0), log_end = (\<lambda>t. 2)\<rparr>"

text \<open>A world with two records in every partition and the identity in the place of the
  hash function.\<close>

definition demo_world :: world where
  "demo_world =
     \<lparr>sha256 = (\<lambda>bs. bs),
      json_loads = loads_table,
      brokers_available = True,
      the_broker = demo_broker,
      fetch = (\<lambda>t off. drop (nat off)
                 [\<lparr>msg_topic = t, msg_timestamp = 1, msg_value = Some ''{}''\<rparr>,
                  \<lparr>msg_topic = t, msg_timestamp = 2, msg_value = Some ''{\"merchant_id\": null}''\<rparr>]),
      time_str = ''1500000000'',
      materialize = (\<lambda>path rows. None),
      exn_str = (\<lambda>e. ''error'')\<rparr>"

text \<open>The same world when a third record has reached every partition after the end
  offset was read: partitions end at 2, the consumer delivers three records.\<close>

definition late_world :: world where
  "late_world =
     demo_world
       \<lparr>fetch := (\<lambda>t off. drop (nat off)
                 [\<lparr>msg_topic = t, msg_timestamp = 1, msg_value = Some ''{}''\<rparr>,
                  \<lparr>msg_topic = t, msg_timestamp = 2, msg_value = Some ''{\"merchant_id\": null}''\<rparr>,
                  \<lparr>msg_topic = t, msg_timestamp = 3, msg_value = Some ''{}''\<rparr>])\<rparr>"

text \<open>The output a record gives when the loop accepts it: the record decodes and its
  payload passes the \<open>http_code\<close> test without an exception.\<close>

definition accepted :: "(string \<Rightarrow> exn + json) \<Rightarrow> message \<Rightarrow> json option" where
  "accepted loads msg =
     (case decode_value loads (msg_value msg) of
        Inl e \<Rightarrow> None
      | Inr msg_json \<Rightarrow>
          if http_code_rejected msg_json = Inr False then Some (make_output msg msg_json) else None)"

text \<open>The accepted outputs of one topic, in arrival order, and the broadcasts of the
  accepted records of the listed topics, in arrival order.\<close>

definition accepted_outputs :: "(string \<Rightarrow> exn + json) \<Rightarrow> string \<Rightarrow> message list \<Rightarrow> json list" where
  "accepted_outputs loads t msgs =
     List.map_filter (accepted loads) (filter (\<lambda>m. msg_topic m = t) msgs)"

definition broadcasts :: "(string \<Rightarrow> exn + json) \<Rightarrow> message list \<Rightarrow> event list" where
  "broadcasts loads msgs =
     List.map_filter
       (\<lambda>m. if msg_topic m \<in> set topics
            then map_option (\<lambda>out. Broadcast (msg_topic m) (Dumped out)) (accepted loads m)
            else None)
       msgs"

text \<open>An output whose payload has an \<open>http_code\<close> that is not 200.\<close>

definition carries_rejected :: "json \<Rightarrow> bool" where
  "carries_rejected out =
     (case py_getitem out ''value'' of
        Inr j \<Rightarrow> http_code_rejected j = Inr True
      | Inl e \<Rightarrow> False)"

text \<open>The payload of a record that decodes, and a record that makes the export loop raise:
  its decoding raises something other than \<open>ValueError\<close>, or the filter raises on its
  payload.\<close>

definition decoded_payload :: "(string \<Rightarrow> exn + json) \<Rightarrow> message \<Rightarrow> json option" where
  "decoded_payload loads msg =
     (case decode_value loads (msg_value msg) of Inl e \<Rightarrow> None | Inr j \<Rightarrow> Some j)"

definition raises :: "(string \<Rightarrow> exn + json) \<Rightarrow> string option \<Rightarrow> message \<Rightarrow> bool" where
  "raises loads pid msg =
     (case decode_value loads (msg_value msg) of
        Inl e \<Rightarrow> e \<noteq> ValueError
      | Inr j \<Rightarrow> (case merchant_filter j pid of Inl e \<Rightarrow> True | Inr b \<Rightarrow> False))"

text \<open>The records of the export window of a topic: of the records the consumer delivers
  from the start of the window, those before the end offset, offsets being contiguous.
  Then their decoded payloads, in the order of the log.\<close>

definition window_records :: "world \<Rightarrow> string \<Rightarrow> message list" where
  "window_records w topic =
     (let end_offset = int (log_end (the_broker w) topic);
          offset = max (int (beginning_offset (the_broker w) topic)) (end_offset - max_messages)
      in take (nat (end_offset - offset)) (fetch w topic offset))"

definition window_payloads :: "world \<Rightarrow> string \<Rightarrow> json list" where
  "window_payloads w topic = List.map_filter (decoded_payload (json_loads w)) (window_records w topic)"

text \<open>The filter in the words of the specification: a payload passes when it has no
  \<open>merchant_id\<close> field, or when that field equals the principal, which is a string or
  absent; \<open>null\<close> is what equals an absent principal. Only an object has fields.\<close>

fun spec_passes :: "string option \<Rightarrow> json \<Rightarrow> bool" where
  "spec_passes pid (JObj kvs) =
     (case map_of kvs ''merchant_id'' of
        None \<Rightarrow> True
      | Some v \<Rightarrow> (case pid of Some p \<Rightarrow> v = JStr p | None \<Rightarrow> v = JNull))"
| "spec_passes pid _ = True"

text \<open>The reshaping in the words of the specification. A snapshot message is an object
  with a timestamp and a list of offer objects under \<open>offers\<close>. Each offer gives one row:
  the offer with the timestamp of its parent and, when the parent has a \<open>merchant_id\<close>,
  with that as \<open>triggering_merchant_id\<close>.\<close>

fun is_object :: "json \<Rightarrow> bool" where
  "is_object (JObj kvs) = True"
| "is_object _ = False"

fun snapshot_message :: "json \<Rightarrow> bool" where
  "snapshot_message (JObj kvs) =
     (case (map_of kvs ''offers'', map_of kvs ''timestamp'') of
        (Some (JArr offers), Some ts) \<Rightarrow> list_all is_object offers
      | _ \<Rightarrow> False)"
| "snapshot_message _ = False"

fun spec_inject :: "json \<Rightarrow> json option \<Rightarrow> json \<Rightarrow> json" where
  "spec_inject ts None (JObj offer) = JObj (AList.update ''timestamp'' ts offer)"
| "spec_inject ts (Some m) (JObj offer) =
     JObj (AList.update ''triggering_merchant_id'' m (AList.update ''timestamp'' ts offer))"
| "spec_inject ts trig offer = offer"

fun spec_rows :: "json \<Rightarrow> json list" where
  "spec_rows (JObj kvs) =
     (case (map_of kvs ''offers'', map_of kvs ''timestamp'') of
        (Some (JArr offers), Some ts) \<Rightarrow> map (spec_inject ts (map_of kvs ''merchant_id'')) offers
      | _ \<Rightarrow> [])"
| "spec_rows _ = []"

text \<open>The snapshot of the example: three offers, \<open>merchant_id\<close> \<open>m1\<close>, timestamp 42.\<close>

definition demo_snapshot :: json where
  "demo_snapshot =
     JObj [(''offers'', JArr [JObj [(''offer_id'', JInt 1), (''price'', JInt 10)],
                             JObj [(''offer_id'', JInt 2), (''price'', JInt 20)],
                             JObj [(''offer_id'', JInt 3), (''merchant_id'', JStr ''m2'')]]),
           (''merchant_id'', JStr ''m1''),
           (''timestamp'', JInt 42)]"

text \<open>The handler as \<open>__init__\<close> leaves it, three records of one topic, the second with
  \<open>http_code\<close> 404, and a broker with 250 records in every partition.\<close>

definition fresh_handler :: handler where
  "fresh_handler = \<lparr>dumps = map (\<lambda>t. (t, [])) topics, sent = []\<rparr>"

definition demo_msgs :: "message list" where
  "demo_msgs =
     [\<lparr>msg_topic = ''profit'', msg_timestamp = 1, msg_value = Some ''{}''\<rparr>,
      \<lparr>msg_topic = ''profit'', msg_timestamp = 2, msg_value = Some ''{\"http_code\": 404}''\<rparr>,
      \<lparr>msg_topic = ''profit'', msg_timestamp = 3, msg_value = Some ''{\"http_code\": 200}''\<rparr>]"



section \<open>Properties of the export request\<close>

lemma split_acc_nonempty: "split_acc sep cur s \<noteq> []"
  by (induction s arbitrary: cur) auto

lemma takeWhile_rev_snoc_sep:
  "sep \<notin> set s \<Longrightarrow> takeWhile (\<lambda>c. c \<noteq> sep) (rev s @ [sep]) = rev s"
  by (subst takeWhile_append2) auto

lemma takeWhile_rev_snoc_other:
  "sep \<in> set s \<Longrightarrow> takeWhile (\<lambda>c. c \<noteq> sep) (rev s @ ys) = takeWhile (\<lambda>c. c \<noteq> sep) (rev s)"
  by (rule takeWhile_append1 [of sep]) auto

lemma last_split_acc:
  "last (split_acc sep cur s) =
     (if sep \<in> set s then rev (takeWhile (\<lambda>c. c \<noteq> sep) (rev s)) else cur @ s)"
proof (induction s arbitrary: cur)
  case Nil
  show ?case by simp
next
  case (Cons c cs)
  show ?case
  proof (cases "c = sep")
    case True
    then show ?thesis
      using Cons.IH [of "[]"]
      by (simp add: split_acc_nonempty takeWhile_rev_snoc_sep takeWhile_rev_snoc_other)
  next
    case False
    then show ?thesis
      using Cons.IH [of "cur @ [c]"]
      by (simp add: takeWhile_rev_snoc_other takeWhile_append2)
  qed
qed

lemma last_py_split:
  "last (py_split s sep) = rev (takeWhile (\<lambda>c. c \<noteq> sep) (rev s))"
proof (cases "sep \<in> set s")
  case True
  then show ?thesis by (simp add: py_split_def last_split_acc)
next
  case False
  then have "\<forall>x\<in>set (rev s). x \<noteq> sep"
    by auto
  then have "takeWhile (\<lambda>c. c \<noteq> sep) (rev s) = rev s"
    by (rule takeWhile_eq_all_conv [THEN iffD2])
  then have "rev (takeWhile (\<lambda>c. c \<noteq> sep) (rev s)) = s"
    by (simp only: rev_rev_ident)
  with False show ?thesis by (simp add: py_split_def last_split_acc)
qed

lemma after_last_sep_empty:
  "rev (takeWhile (\<lambda>c. c \<noteq> sep) (rev h)) = [] \<longleftrightarrow> h = [] \<or> last h = sep"
  by (cases h rule: rev_cases) auto

lemma export_try_no_hash: "HashCall t \<notin> set (snd (export_try w m topic))"
  by (simp add: export_try_def Let_def split: sum.split option.split prod.split)





lemma export_unknown:
  "topic \<notin> set topics \<Longrightarrow>
     export_csv_for_topic w a topic =
       \<lparr>response = [(''error'', ''unknown topic'')],
        trace = snd (merchant_id_of (sha256 w) (merchant_token_of a))\<rparr>"
  by (simp add: export_csv_for_topic_def Let_def split: prod.split)

lemma merchant_id_of_trace:
  "e \<in> set (snd (merchant_id_of h tok)) \<Longrightarrow> \<exists>t. e = HashCall t"
  by (auto simp: merchant_id_of_def split: option.splits if_splits)

lemma export_known_response:
  "topic \<in> set topics \<Longrightarrow>
     (\<exists>e. response (export_csv_for_topic w a topic) = [(''error'', ''failed with: '' @ e)])
     \<or> (\<exists>p. response (export_csv_for_topic w a topic) = [(''url'', p)])"
  by (auto simp: export_csv_for_topic_def Let_def split: prod.split sum.split)

text \<open>
  Claim C7. An export request for a name that is not in the topic list is answered with
  the error \<open>unknown topic\<close>, and no consumer is opened and no partition is sought for
  it. A request for a name in the list is never answered with that error.
\<close>

theorem unknown_topic_no_read:
  "(topic \<notin> set topics \<longrightarrow>
      response (export_csv_for_topic w auth_header topic) = [(''error'', ''unknown topic'')]
      \<and> ConsumerOpen \<notin> set (trace (export_csv_for_topic w auth_header topic))
      \<and> (\<forall>t off. Seek t off \<notin> set (trace (export_csv_for_topic w auth_header topic))))
   \<and> (topic \<in> set topics \<longrightarrow>
      response (export_csv_for_topic w auth_header topic) \<noteq> [(''error'', ''unknown topic'')])"
proof (intro conjI impI)
  assume u: "topic \<notin> set topics"
  show "response (export_csv_for_topic w auth_header topic) = [(''error'', ''unknown topic'')]"
    using u by (simp add: export_unknown)
  show "ConsumerOpen \<notin> set (trace (export_csv_for_topic w auth_header topic))"
    using u merchant_id_of_trace [of ConsumerOpen] by (auto simp: export_unknown)
  show "\<forall>t off. Seek t off \<notin> set (trace (export_csv_for_topic w auth_header topic))"
    using u merchant_id_of_trace by (fastforce simp: export_unknown)
next
  assume "topic \<in> set topics"
  from export_known_response [OF this, of w auth_header]
  show "response (export_csv_for_topic w auth_header topic) \<noteq> [(''error'', ''unknown topic'')]"
    by auto
qed

theorem unknown_topic_no_read_witness:
  "''nope'' \<notin> set topics
   \<and> response (export_csv_for_topic demo_world None ''nope'') = [(''error'', ''unknown topic'')]
   \<and> ConsumerOpen \<notin> set (trace (export_csv_for_topic demo_world None ''nope''))
   \<and> ''profit'' \<in> set topics
   \<and> response (export_csv_for_topic demo_world None ''profit'') \<noteq> [(''error'', ''unknown topic'')]"
  using unknown_topic_no_read [of "''nope''" demo_world None]
    unknown_topic_no_read [of "''profit''" demo_world None]
  by (simp add: topics_def)

lemma export_None_eq:
  assumes "fst (merchant_id_of (sha256 w) (merchant_token_of a)) = None"
  shows "export_csv_for_topic w a topic = export_csv_for_topic w None topic"
proof -
  from assms have "merchant_id_of (sha256 w) (merchant_token_of a) = (None, [])"
    by (auto simp: merchant_id_of_def split: option.splits if_splits)
  then show ?thesis
    by (simp add: export_csv_for_topic_def merchant_id_of_def merchant_token_of_def)
qed

lemma export_trace_hash:
  "HashCall t \<in> set (trace (export_csv_for_topic w a topic))
     \<longleftrightarrow> HashCall t \<in> set (snd (merchant_id_of (sha256 w) (merchant_token_of a)))"
  using export_try_no_hash [of t w "fst (merchant_id_of (sha256 w) (merchant_token_of a))" topic]
  by (auto simp: export_csv_for_topic_def Let_def split: prod.splits sum.splits)

text \<open>
  Claim C10. When the Authorization header is empty or ends with a space, the token is
  empty: the hasher is not called, the derived principal is absent and the whole request
  goes as it does without the header. The token taken from a non-empty header is what
  follows its last space.
\<close>

theorem empty_token_is_no_credential:
  "(h = [] \<or> last h = CHR '' '' \<longrightarrow>
      fst (merchant_id_of (sha256 w) (merchant_token_of (Some h))) = None
      \<and> (\<forall>t. HashCall t \<notin> set (trace (export_csv_for_topic w (Some h) topic)))
      \<and> export_csv_for_topic w (Some h) topic = export_csv_for_topic w None topic)
   \<and> (h \<noteq> [] \<longrightarrow>
      merchant_token_of (Some h) = Some (rev (takeWhile (\<lambda>c. c \<noteq> CHR '' '') (rev h))))"
proof (intro conjI impI)
  assume e: "h = [] \<or> last h = CHR '' ''"
  have tok: "merchant_token_of (Some h) = None \<or> merchant_token_of (Some h) = Some []"
    using e after_last_sep_empty [of "CHR '' ''" h]
    by (auto simp: merchant_token_of_def last_py_split)
  then have m: "merchant_id_of (sha256 w) (merchant_token_of (Some h)) = (None, [])"
    by (auto simp: merchant_id_of_def)
  then show "fst (merchant_id_of (sha256 w) (merchant_token_of (Some h))) = None"
    by simp
  then show "export_csv_for_topic w (Some h) topic = export_csv_for_topic w None topic"
    by (rule export_None_eq)
  show "\<forall>t. HashCall t \<notin> set (trace (export_csv_for_topic w (Some h) topic))"
    using m by (simp add: export_trace_hash)
next
  assume "h \<noteq> []"
  then show "merchant_token_of (Some h) = Some (rev (takeWhile (\<lambda>c. c \<noteq> CHR '' '') (rev h)))"
    by (simp add: merchant_token_of_def last_py_split)
qed

theorem empty_token_is_no_credential_witness:
  "last ''Bearer '' = CHR '' ''
   \<and> fst (merchant_id_of (sha256 demo_world) (merchant_token_of (Some ''Bearer ''))) = None
   \<and> export_csv_for_topic demo_world (Some ''Bearer '') ''profit''
       = export_csv_for_topic demo_world None ''profit''
   \<and> ''Bearer abc'' \<noteq> []
   \<and> merchant_token_of (Some ''Bearer abc'') = Some ''abc''"
proof -
  have a: "last ''Bearer '' = CHR '' ''"
    by simp
  have b: "''Bearer abc'' \<noteq> []"
    by simp
  have c: "rev (takeWhile (\<lambda>c. c \<noteq> CHR '' '') (rev ''Bearer abc'')) = ''abc''"
    by simp
  from a empty_token_is_no_credential [of "''Bearer ''" demo_world "''profit''"]
  have "fst (merchant_id_of (sha256 demo_world) (merchant_token_of (Some ''Bearer ''))) = None
    \<and> export_csv_for_topic demo_world (Some ''Bearer '') ''profit''
       = export_csv_for_topic demo_world None ''profit''"
    by blast
  moreover from b empty_token_is_no_credential [of "''Bearer abc''" demo_world "''profit''"]
  have "merchant_token_of (Some ''Bearer abc'') = Some ''abc''"
    unfolding c by blast
  ultimately show ?thesis
    using a b by blast
qed



lemma merchant_filter_spec:
  assumes "merchant_filter j pid = Inr b"
  shows "b = spec_passes pid j"
proof (cases j)
  case (JObj kvs)
  with assms show ?thesis
    by (cases pid; cases "map_of kvs ''merchant_id''")
      (auto simp: merchant_filter_def elim: py_eq_optstr.elims)
qed (insert assms, auto simp: merchant_filter_def split: bool.splits)

lemma merchant_filter_error:
  "merchant_filter j pid \<noteq> Inl ValueError"
  by (cases j) (auto simp: merchant_filter_def split: bool.splits option.splits)

lemma export_body_step:
  assumes "\<not> raises loads pid m"
  shows "(export_body loads pid m acc = Inl ValueError \<and> decoded_payload loads m = None)
    \<or> (\<exists>j. decoded_payload loads m = Some j
           \<and> export_body loads pid m acc = Inr (acc @ filter (spec_passes pid) [j]))"
proof (cases "decode_value loads (msg_value m)")
  case (Inl e)
  with assms show ?thesis
    by (simp add: raises_def export_body_def decoded_payload_def)
next
  case (Inr j)
  with assms obtain b where b: "merchant_filter j pid = Inr b"
    by (cases "merchant_filter j pid") (simp_all add: raises_def)
  then have "b = spec_passes pid j"
    by (rule merchant_filter_spec)
  with Inr b show ?thesis
    by (simp add: export_body_def decoded_payload_def)
qed

lemma export_body_raises:
  assumes "raises loads pid m"
  shows "\<exists>x. export_body loads pid m acc = Inl x \<and> x \<noteq> ValueError"
proof (cases "decode_value loads (msg_value m)")
  case (Inl e)
  with assms show ?thesis
    by (simp add: raises_def export_body_def)
next
  case (Inr j)
  with assms obtain x where "merchant_filter j pid = Inl x"
    by (cases "merchant_filter j pid") (simp_all add: raises_def)
  with Inr merchant_filter_error [of j pid] show ?thesis
    by (simp add: export_body_def)
qed

lemma take_window_Cons:
  assumes "\<not> off \<ge> e"
  shows "take (nat (e - off)) (x # xs) = x # take (nat (e - (off + 1))) xs"
proof -
  from assms have "nat (e - off) = Suc (nat (e - (off + 1)))"
    by simp
  then show ?thesis
    by simp
qed

lemma export_loop_take:
  "export_loop l m e off msgs acc = export_loop l m e off (take (nat (e - off)) msgs) acc"
proof (induction msgs arbitrary: off acc)
  case Nil
  show ?case by simp
next
  case (Cons x xs)
  show ?case
  proof (cases "off \<ge> e")
    case True
    then show ?thesis by simp
  next
    case False
    show ?thesis
      unfolding take_window_Cons [OF False] using False Cons.IH [of "off + 1"]
      by (simp split: sum.split)
  qed
qed

lemma export_loop_ok:
  assumes "\<forall>m\<in>set (take (nat (e - off)) msgs). \<not> raises loads pid m"
  shows "export_loop loads pid e off msgs acc =
     Inr (acc @ filter (spec_passes pid)
                  (List.map_filter (decoded_payload loads) (take (nat (e - off)) msgs)))"
  using assms
proof (induction msgs arbitrary: off acc)
  case Nil
  show ?case by (simp add: List.map_filter_simps)
next
  case (Cons x xs)
  show ?case
  proof (cases "off \<ge> e")
    case True
    then show ?thesis by (simp add: List.map_filter_simps)
  next
    case False
    note t = take_window_Cons [OF False, of x xs]
    from Cons.prems have x: "\<not> raises loads pid x"
      and rest: "\<forall>m\<in>set (take (nat (e - (off + 1))) xs). \<not> raises loads pid m"
      unfolding t by simp_all
    from export_body_step [OF x, of acc] show ?thesis
    proof (elim disjE conjE exE)
      assume "export_body loads pid x acc = Inl ValueError" and "decoded_payload loads x = None"
      then show ?thesis
        unfolding t using False Cons.IH [OF rest, of acc]
        by (simp add: List.map_filter_simps)
    next
      fix j
      assume "decoded_payload loads x = Some j"
        and "export_body loads pid x acc = Inr (acc @ filter (spec_passes pid) [j])"
      then show ?thesis
        unfolding t using False Cons.IH [OF rest, of "acc @ filter (spec_passes pid) [j]"]
        by (simp add: List.map_filter_simps)
    qed
  qed
qed

lemma export_loop_err:
  assumes "\<exists>m\<in>set (take (nat (e - off)) msgs). raises loads pid m"
  shows "\<exists>x. export_loop loads pid e off msgs acc = Inl x"
  using assms
proof (induction msgs arbitrary: off acc)
  case Nil
  then show ?case by simp
next
  case (Cons x xs)
  show ?case
  proof (cases "off \<ge> e")
    case True
    with Cons.prems show ?thesis by simp
  next
    case False
    note t = take_window_Cons [OF False, of x xs]
    show ?thesis
    proof (cases "raises loads pid x")
      case True
      from export_body_raises [OF this, of acc] show ?thesis
        using False by auto
    next
      case nr: False
      with Cons.prems have "\<exists>m\<in>set (take (nat (e - (off + 1))) xs). raises loads pid m"
        unfolding t by simp
      from Cons.IH [OF this] have "\<exists>y. export_loop loads pid e (off + 1) xs acc' = Inl y" for acc'
        by blast
      then show ?thesis
        using False by (simp split: sum.split)
    qed
  qed
qed

lemma export_window_value:
  "\<exists>c. export_window b topic =
     Inr (max (int (beginning_offset b topic)) (int (log_end b topic) - max_messages),
          int (log_end b topic), c)"
  by (simp add: export_window_def assign_def seek_to_beginning_def seek_to_end_def position_def
      seek_def Let_def max_messages_def)

lemma export_try_seek:
  assumes "brokers_available w"
  shows "Seek t off \<in> set (snd (export_try w m topic))
     \<longleftrightarrow> t = topic \<and> off = max (int (beginning_offset (the_broker w) topic))
                               (int (log_end (the_broker w) topic) - max_messages)"
proof -
  obtain c where "export_window (the_broker w) topic =
     Inr (max (int (beginning_offset (the_broker w) topic))
            (int (log_end (the_broker w) topic) - max_messages),
          int (log_end (the_broker w) topic), c)"
    using export_window_value by blast
  then show ?thesis
    using assms by (auto simp: export_try_def Let_def split: sum.splits option.splits)
qed

lemma export_trace_seek:
  assumes "topic \<in> set topics"
  shows "Seek t off \<in> set (trace (export_csv_for_topic w a topic))
     \<longleftrightarrow> Seek t off \<in> set (snd (export_try w (fst (merchant_id_of (sha256 w) (merchant_token_of a))) topic))"
  using assms merchant_id_of_trace [of "Seek t off" "sha256 w" "merchant_token_of a"]
  by (auto simp: export_csv_for_topic_def Let_def split: prod.splits sum.splits)

lemma export_try_fetch_take:
  "export_try (w\<lparr>fetch := \<lambda>t off. take (nat (int (log_end (the_broker w) t) - off)) (fetch w t off)\<rparr>) m topic
     = export_try w m topic"
proof -
  obtain c where win: "export_window (the_broker w) topic =
     Inr (max (int (beginning_offset (the_broker w) topic))
            (int (log_end (the_broker w) topic) - max_messages),
          int (log_end (the_broker w) topic), c)"
    using export_window_value by blast
  show ?thesis
    using export_loop_take [of "json_loads w" m "int (log_end (the_broker w) topic)"
      "max (int (beginning_offset (the_broker w) topic)) (int (log_end (the_broker w) topic) - max_messages)"
      "fetch w topic (max (int (beginning_offset (the_broker w) topic)) (int (log_end (the_broker w) topic) - max_messages))" "[]"]
    by (simp add: export_try_def win cong: sum.case_cong option.case_cong if_cong)
qed

lemma export_fetch_take:
  "export_csv_for_topic
     (w\<lparr>fetch := \<lambda>t off. take (nat (int (log_end (the_broker w) t) - off)) (fetch w t off)\<rparr>) a topic
     = export_csv_for_topic w a topic"
  by (simp add: export_csv_for_topic_def export_try_fetch_take
      cong: sum.case_cong prod.case_cong if_cong)

lemma export_try_outcome:
  "(\<exists>e tr. export_try w pid topic = (Inl e, tr) \<and> (\<forall>p rs. ToCsv p rs \<notin> set tr))
   \<or> (\<exists>path rows tr. export_try w pid topic = (Inr path, tr @ [ToCsv path rows])
         \<and> (\<forall>p rs. ToCsv p rs \<notin> set tr)
         \<and> (if topic = ''marketSituation''
             then market_situation_shaper
                    (filter (spec_passes pid) (window_payloads w topic)) = Inr rows
             else rows = filter (spec_passes pid) (window_payloads w topic)))"
proof (cases "brokers_available w")
  case False
  then show ?thesis
    by (simp add: export_try_def)
next
  case True
  let ?e = "int (log_end (the_broker w) topic)"
  let ?off = "max (int (beginning_offset (the_broker w) topic)) (?e - max_messages)"
  obtain c where win: "export_window (the_broker w) topic = Inr (?off, ?e, c)"
    using export_window_value by blast
  have recs: "window_records w topic = take (nat (?e - ?off)) (fetch w topic ?off)"
    by (simp add: window_records_def Let_def)
  show ?thesis
  proof (cases "\<exists>m\<in>set (window_records w topic). raises (json_loads w) pid m")
    case r: True
    then obtain x where "export_loop (json_loads w) pid ?e ?off (fetch w topic ?off) [] = Inl x"
      unfolding recs using export_loop_err by blast
    then show ?thesis
      using True by (simp add: export_try_def win)
  next
    case False
    then have "\<forall>m\<in>set (take (nat (?e - ?off)) (fetch w topic ?off)). \<not> raises (json_loads w) pid m"
      unfolding recs by simp
    from export_loop_ok [OF this, of "[]"]
    have loop: "export_loop (json_loads w) pid ?e ?off (fetch w topic ?off) [] =
        Inr (filter (spec_passes pid) (window_payloads w topic))"
      by (simp add: window_payloads_def recs)
    show ?thesis
      using True
      by (auto simp: export_try_def win loop Let_def split: sum.splits option.splits)
  qed
qed

lemma export_outcome:
  assumes "pid = fst (merchant_id_of (sha256 w) (merchant_token_of a))"
  shows "((\<exists>e. response (export_csv_for_topic w a topic) = [(''error'', e)])
          \<and> (\<forall>p rs. ToCsv p rs \<notin> set (trace (export_csv_for_topic w a topic))))
     \<or> (\<exists>path rows.
           response (export_csv_for_topic w a topic) = [(''url'', path)]
           \<and> (\<forall>p rs. ToCsv p rs \<in> set (trace (export_csv_for_topic w a topic))
                    \<longleftrightarrow> p = path \<and> rs = rows)
           \<and> (if topic = ''marketSituation''
               then market_situation_shaper
                      (filter (spec_passes pid) (window_payloads w topic)) = Inr rows
               else rows = filter (spec_passes pid) (window_payloads w topic)))"
proof -
  obtain hashed where m: "merchant_id_of (sha256 w) (merchant_token_of a) = (pid, hashed)"
    using assms by (cases "merchant_id_of (sha256 w) (merchant_token_of a)") simp
  have h: "ToCsv p rs \<notin> set hashed" for p rs
    using merchant_id_of_trace [of "ToCsv p rs" "sha256 w" "merchant_token_of a"] m by auto
  show ?thesis
  proof (cases "topic \<in> set topics")
    case False
    then show ?thesis
      using h by (simp add: export_csv_for_topic_def m)
  next
    case True
    from export_try_outcome [of w pid topic] show ?thesis
    proof (elim disjE exE conjE)
      fix e tr
      assume "export_try w pid topic = (Inl e, tr)" and "\<forall>p rs. ToCsv p rs \<notin> set tr"
      then have "(\<exists>e. response (export_csv_for_topic w a topic) = [(''error'', e)])
          \<and> (\<forall>p rs. ToCsv p rs \<notin> set (trace (export_csv_for_topic w a topic)))"
        using True h by (simp add: export_csv_for_topic_def m)
      then show ?thesis ..
    next
      fix path rows tr
      assume t: "export_try w pid topic = (Inr path, tr @ [ToCsv path rows])"
        and n: "\<forall>p rs. ToCsv p rs \<notin> set tr"
        and r: "if topic = ''marketSituation''
             then market_situation_shaper
                    (filter (spec_passes pid) (window_payloads w topic)) = Inr rows
             else rows = filter (spec_passes pid) (window_payloads w topic)"
      have "response (export_csv_for_topic w a topic) = [(''url'', path)]"
        using True t by (simp add: export_csv_for_topic_def m)
      moreover have "\<forall>p rs. ToCsv p rs \<in> set (trace (export_csv_for_topic w a topic))
                    \<longleftrightarrow> p = path \<and> rs = rows"
        using True t n h by (auto simp: export_csv_for_topic_def m)
      ultimately have "\<exists>path rows.
           response (export_csv_for_topic w a topic) = [(''url'', path)]
           \<and> (\<forall>p rs. ToCsv p rs \<in> set (trace (export_csv_for_topic w a topic))
                    \<longleftrightarrow> p = path \<and> rs = rows)
           \<and> (if topic = ''marketSituation''
               then market_situation_shaper
                      (filter (spec_passes pid) (window_payloads w topic)) = Inr rows
               else rows = filter (spec_passes pid) (window_payloads w topic))"
        using r by blast
      then show ?thesis ..
    qed
  qed
qed

text \<open>
  Claim C2. An export request for a known topic seeks the partition to
  \<open>max(start_offset, end_offset - 100000)\<close>, the two offsets being the earliest and the
  end offset of the partition read once at the start of the request, and to no other
  place. From there the loop reads the records up to the end offset and no further: when
  no record of that window raises, it collects the passing payloads of exactly those
  records, and when one raises, so does the loop; what is written to the file comes from
  those records, and records at or after the end offset do not change the answer. With
  offsets 0 and 999 the request seeks 0 and the window is the first 999 records
  delivered, offsets 0 to 998; with offsets 0 and 200000 it seeks 100000.
\<close>

theorem export_window_start:
  assumes "topic \<in> set topics" and "brokers_available w"
  shows "(\<forall>off. Seek topic off \<in> set (trace (export_csv_for_topic w auth_header topic))
            \<longleftrightarrow> off = max (int (beginning_offset (the_broker w) topic))
                            (int (log_end (the_broker w) topic) - 100000))
    \<and> window_records w topic =
        take (nat (int (log_end (the_broker w) topic)
                   - max (int (beginning_offset (the_broker w) topic))
                         (int (log_end (the_broker w) topic) - 100000)))
          (fetch w topic (max (int (beginning_offset (the_broker w) topic))
                              (int (log_end (the_broker w) topic) - 100000)))
    \<and> (\<forall>pid. (\<forall>m\<in>set (window_records w topic). \<not> raises (json_loads w) pid m) \<longrightarrow>
          export_loop (json_loads w) pid (int (log_end (the_broker w) topic))
            (max (int (beginning_offset (the_broker w) topic))
                 (int (log_end (the_broker w) topic) - 100000))
            (fetch w topic (max (int (beginning_offset (the_broker w) topic))
                                (int (log_end (the_broker w) topic) - 100000))) []
          = Inr (filter (spec_passes pid)
                   (List.map_filter (decoded_payload (json_loads w)) (window_records w topic))))
    \<and> (\<forall>pid. (\<exists>m\<in>set (window_records w topic). raises (json_loads w) pid m) \<longrightarrow>
          (\<exists>x. export_loop (json_loads w) pid (int (log_end (the_broker w) topic))
            (max (int (beginning_offset (the_broker w) topic))
                 (int (log_end (the_broker w) topic) - 100000))
            (fetch w topic (max (int (beginning_offset (the_broker w) topic))
                                (int (log_end (the_broker w) topic) - 100000))) []
          = Inl x))
    \<and> (\<forall>path rows. ToCsv path rows \<in> set (trace (export_csv_for_topic w auth_header topic)) \<longrightarrow>
          (if topic = ''marketSituation''
           then market_situation_shaper
                  (filter (spec_passes (fst (merchant_id_of (sha256 w) (merchant_token_of auth_header))))
                     (List.map_filter (decoded_payload (json_loads w)) (window_records w topic)))
                = Inr rows
           else rows =
                  filter (spec_passes (fst (merchant_id_of (sha256 w) (merchant_token_of auth_header))))
                    (List.map_filter (decoded_payload (json_loads w)) (window_records w topic))))
    \<and> export_csv_for_topic
          (w\<lparr>fetch := \<lambda>t off. take (nat (int (log_end (the_broker w) t) - off)) (fetch w t off)\<rparr>)
          auth_header topic
        = export_csv_for_topic w auth_header topic
    \<and> (beginning_offset (the_broker w) topic = 0 \<and> log_end (the_broker w) topic = 999 \<longrightarrow>
          Seek topic 0 \<in> set (trace (export_csv_for_topic w auth_header topic))
          \<and> window_records w topic = take 999 (fetch w topic 0))
    \<and> (beginning_offset (the_broker w) topic = 0 \<and> log_end (the_broker w) topic = 200000 \<longrightarrow>
          Seek topic 100000 \<in> set (trace (export_csv_for_topic w auth_header topic))
          \<and> window_records w topic = take 100000 (fetch w topic 100000))"
proof -
  let ?R = "export_csv_for_topic w auth_header topic"
  let ?e = "int (log_end (the_broker w) topic)"
  let ?off = "max (int (beginning_offset (the_broker w) topic)) (?e - 100000)"
  let ?pid = "fst (merchant_id_of (sha256 w) (merchant_token_of auth_header))"
  have seek: "Seek topic off \<in> set (trace ?R) \<longleftrightarrow> off = ?off" for off
    using assms by (simp add: export_trace_seek export_try_seek max_messages_def)
  have recs: "window_records w topic = take (nat (?e - ?off)) (fetch w topic ?off)"
    by (simp add: window_records_def Let_def max_messages_def)
  have ok: "export_loop (json_loads w) pid ?e ?off (fetch w topic ?off) []
      = Inr (filter (spec_passes pid)
               (List.map_filter (decoded_payload (json_loads w)) (window_records w topic)))"
    if "\<forall>m\<in>set (window_records w topic). \<not> raises (json_loads w) pid m" for pid
    using export_loop_ok [of ?e ?off "fetch w topic ?off" "json_loads w" pid "[]"] that
    unfolding recs by simp
  have err: "\<exists>x. export_loop (json_loads w) pid ?e ?off (fetch w topic ?off) [] = Inl x"
    if "\<exists>m\<in>set (window_records w topic). raises (json_loads w) pid m" for pid
    using export_loop_err [of ?e ?off "fetch w topic ?off" "json_loads w" pid "[]"] that
    unfolding recs by simp
  have csv: "if topic = ''marketSituation''
           then market_situation_shaper
                  (filter (spec_passes ?pid)
                     (List.map_filter (decoded_payload (json_loads w)) (window_records w topic)))
                = Inr rows
           else rows =
                  filter (spec_passes ?pid)
                    (List.map_filter (decoded_payload (json_loads w)) (window_records w topic))"
    if "ToCsv path rows \<in> set (trace ?R)" for path rows
    using export_outcome [OF refl, of w auth_header topic] that
    unfolding window_payloads_def by (elim disjE exE conjE) auto
  have same: "export_csv_for_topic
          (w\<lparr>fetch := \<lambda>t off. take (nat (int (log_end (the_broker w) t) - off)) (fetch w t off)\<rparr>)
          auth_header topic = ?R"
    by (rule export_fetch_take)
  have ex1: "Seek topic 0 \<in> set (trace ?R) \<and> window_records w topic = take 999 (fetch w topic 0)"
    if "beginning_offset (the_broker w) topic = 0 \<and> log_end (the_broker w) topic = 999"
    using that seek [of 0] recs by simp
  have ex2: "Seek topic 100000 \<in> set (trace ?R)
      \<and> window_records w topic = take 100000 (fetch w topic 100000)"
    if "beginning_offset (the_broker w) topic = 0 \<and> log_end (the_broker w) topic = 200000"
    using that seek [of 100000] recs by simp
  show ?thesis
    by (intro conjI allI impI) (fact seek recs same | rule ok err csv ex1 [THEN conjunct1]
      ex1 [THEN conjunct2] ex2 [THEN conjunct1] ex2 [THEN conjunct2], assumption)+
qed

lemma late_window_records:
  "window_records late_world ''profit'' =
     [\<lparr>msg_topic = ''profit'', msg_timestamp = 1, msg_value = Some ''{}''\<rparr>,
      \<lparr>msg_topic = ''profit'', msg_timestamp = 2, msg_value = Some ''{\"merchant_id\": null}''\<rparr>]"
  by (simp add: window_records_def late_world_def demo_world_def demo_broker_def max_messages_def)

lemma late_loads: "json_loads late_world = loads_table"
  by (simp add: late_world_def demo_world_def)

lemma late_no_raise:
  "\<forall>m\<in>set (window_records late_world ''profit''). \<not> raises (json_loads late_world) None m"
  unfolding late_window_records late_loads
  by (simp add: raises_def decode_value_def loads_table_def merchant_filter_def)

lemma late_payloads:
  "List.map_filter (decoded_payload (json_loads late_world)) (window_records late_world ''profit'')
     = [JObj [], JObj [(''merchant_id'', JNull)]]"
  unfolding late_window_records late_loads
  by (simp add: decoded_payload_def decode_value_def loads_table_def List.map_filter_simps)

theorem export_window_start_witness:
  "''profit'' \<in> set topics \<and> brokers_available late_world
   \<and> Seek ''profit'' 0 \<in> set (trace (export_csv_for_topic late_world None ''profit''))
   \<and> length (fetch late_world ''profit'' 0) = 3
   \<and> length (window_records late_world ''profit'') = 2
   \<and> export_loop (json_loads late_world) None 2 0 (fetch late_world ''profit'' 0) []
       = Inr [JObj [], JObj [(''merchant_id'', JNull)]]
   \<and> export_csv_for_topic late_world None ''profit'' =
       \<lparr>response = [(''url'', ''data/profit_1500000000.csv'')],
        trace = [ConsumerOpen, Seek ''profit'' 0, ConsumerClose,
                 ToCsv ''data/profit_1500000000.csv'' [JObj [], JObj [(''merchant_id'', JNull)]]]\<rparr>
   \<and> Seek ''profit'' 100000 \<in> set (trace (export_csv_for_topic
        (demo_world\<lparr>the_broker := \<lparr>beginning_offset = (\<lambda>t. 0), log_end = (\<lambda>t. 200000)\<rparr>\<rparr>) None ''profit''))"
proof -
  have a: "''profit'' \<in> set topics"
    by (simp add: topics_def)
  have b: "brokers_available late_world"
    by (simp add: late_world_def demo_world_def)
  have c: "brokers_available (demo_world\<lparr>the_broker := \<lparr>beginning_offset = (\<lambda>t. 0), log_end = (\<lambda>t. 200000)\<rparr>\<rparr>)"
    by (simp add: demo_world_def)
  have o: "log_end (the_broker late_world) ''profit'' = 2"
    "beginning_offset (the_broker late_world) ''profit'' = 0"
    by (simp_all add: late_world_def demo_world_def demo_broker_def)
  note inst = export_window_start [OF a b, of None]
  from inst [THEN conjunct1]
  have "Seek ''profit'' 0 \<in> set (trace (export_csv_for_topic late_world None ''profit''))"
    by (simp add: o)
  moreover from inst [THEN conjunct2, THEN conjunct2, THEN conjunct1, THEN spec, THEN mp,
      OF late_no_raise]
  have "export_loop (json_loads late_world) None 2 0 (fetch late_world ''profit'' 0) []
       = Inr [JObj [], JObj [(''merchant_id'', JNull)]]"
    by (simp add: o late_payloads)
  moreover from export_window_start [OF a c, of None]
  have "Seek ''profit'' 100000 \<in> set (trace (export_csv_for_topic
        (demo_world\<lparr>the_broker := \<lparr>beginning_offset = (\<lambda>t. 0), log_end = (\<lambda>t. 200000)\<rparr>\<rparr>) None ''profit''))"
    by (simp add: demo_world_def)
  moreover have "export_csv_for_topic late_world None ''profit'' =
       \<lparr>response = [(''url'', ''data/profit_1500000000.csv'')],
        trace = [ConsumerOpen, Seek ''profit'' 0, ConsumerClose,
                 ToCsv ''data/profit_1500000000.csv'' [JObj [], JObj [(''merchant_id'', JNull)]]]\<rparr>"
    by (simp add: export_csv_for_topic_def merchant_token_of_def merchant_id_of_def topics_def
        export_try_def export_window_def assign_def seek_to_beginning_def seek_to_end_def
        position_def seek_def max_messages_def late_world_def demo_world_def demo_broker_def
        loads_table_def export_body_def decode_value_def merchant_filter_def Let_def)
  moreover have "length (fetch late_world ''profit'' 0) = 3"
    by (simp add: late_world_def demo_world_def)
  moreover have "length (window_records late_world ''profit'') = 2"
    by (simp add: late_window_records)
  ultimately show ?thesis
    using a b by blast
qed










section \<open>Properties of the reshaping\<close>

lemma inject_offer_object:
  assumes "map_of kvs ''timestamp'' = Some ts" and "is_object offer"
  shows "inject_offer (JObj kvs) offer = Inr (spec_inject ts (map_of kvs ''merchant_id'') offer)"
  using assms
  by (cases offer; cases "map_of kvs ''merchant_id''") (auto simp: inject_offer_def)

lemma expand_offers_objects:
  assumes "map_of kvs ''timestamp'' = Some ts" and "list_all is_object offers"
  shows "expand_offers (JObj kvs) offers acc =
     Inr (acc @ map (spec_inject ts (map_of kvs ''merchant_id'')) offers)"
  using assms(2)
proof (induction offers arbitrary: acc)
  case Nil
  show ?case by simp
next
  case (Cons offer rest)
  then show ?case
    by (simp add: inject_offer_object [OF assms(1)])
qed

lemma shaper_step:
  assumes "snapshot_message s"
  shows "\<exists>offers. py_getitem s ''offers'' = Inr (JArr offers)
     \<and> expand_offers s offers acc = Inr (acc @ spec_rows s)"
proof -
  from assms obtain kvs where s: "s = JObj kvs"
    by (cases s) auto
  from assms obtain offers ts where o: "map_of kvs ''offers'' = Some (JArr offers)"
      and t: "map_of kvs ''timestamp'' = Some ts" and all: "list_all is_object offers"
    unfolding s by (auto split: option.splits json.splits)
  show ?thesis
    unfolding s using o t expand_offers_objects [OF t all, of acc] by simp
qed

lemma shaper_loop_snapshots:
  assumes "list_all snapshot_message msgs"
  shows "shaper_loop msgs acc = Inr (acc @ concat (map spec_rows msgs))"
  using assms
proof (induction msgs arbitrary: acc)
  case Nil
  show ?case by simp
next
  case (Cons s rest)
  from Cons.prems have "snapshot_message s" and r: "list_all snapshot_message rest"
    by simp_all
  from shaper_step [OF this(1), of acc] obtain offers
    where "py_getitem s ''offers'' = Inr (JArr offers)"
      and "expand_offers s offers acc = Inr (acc @ spec_rows s)"
    by blast
  then show ?case
    using Cons.IH [OF r, of "acc @ spec_rows s"] by simp
qed

lemma spec_rows_length:
  "snapshot_message s \<Longrightarrow> py_getitem s ''offers'' = Inr (JArr offers) \<Longrightarrow>
     length (spec_rows s) = length offers"
  by (cases s) (auto split: option.splits json.splits)

lemma spec_inject_fields:
  assumes "is_object offer"
  shows "py_getitem (spec_inject ts trig offer) ''timestamp'' = Inr ts"
    and "trig = Some m \<Longrightarrow> py_getitem (spec_inject ts trig offer) ''triggering_merchant_id'' = Inr m"
    and "k \<noteq> ''timestamp'' \<Longrightarrow> k \<noteq> ''triggering_merchant_id'' \<Longrightarrow>
          py_getitem (spec_inject ts trig offer) k = py_getitem offer k"
    and "trig = None \<Longrightarrow> k \<noteq> ''timestamp'' \<Longrightarrow>
          py_getitem (spec_inject ts trig offer) k = py_getitem offer k"
  using assms
  by (cases offer; cases trig; simp add: update_conv')+

text \<open>
  Claim C8. On a list of snapshot messages \<open>market_situation_shaper\<close> returns one row
  per nested offer, in order. Each row is its offer with the timestamp of the parent
  message and, when the parent has a \<open>merchant_id\<close>, with that value as
  \<open>triggering_merchant_id\<close>; the other fields of the offer are as they were. The
  snapshot with three offers, \<open>merchant_id\<close> \<open>m1\<close> and timestamp 42 gives three
  rows with timestamp 42 and \<open>triggering_merchant_id\<close> \<open>m1\<close>.
\<close>

theorem shaper_one_row_per_offer:
  assumes "list_all snapshot_message msgs"
  shows "market_situation_shaper msgs = Inr (concat (map spec_rows msgs))
    \<and> (\<forall>s\<in>set msgs. \<forall>offers. py_getitem s ''offers'' = Inr (JArr offers) \<longrightarrow>
          length (spec_rows s) = length offers
          \<and> (\<forall>i<length offers.
                py_getitem (spec_rows s ! i) ''timestamp'' = py_getitem s ''timestamp''
                \<and> (py_in ''merchant_id'' s = Inr True \<longrightarrow>
                      py_getitem (spec_rows s ! i) ''triggering_merchant_id''
                        = py_getitem s ''merchant_id'')
                \<and> (\<forall>k. k \<noteq> ''timestamp'' \<and> k \<noteq> ''triggering_merchant_id'' \<longrightarrow>
                      py_getitem (spec_rows s ! i) k = py_getitem (offers ! i) k)))"
proof (intro conjI ballI allI impI)
  show "market_situation_shaper msgs = Inr (concat (map spec_rows msgs))"
    using shaper_loop_snapshots [OF assms, of "[]"] by (simp add: market_situation_shaper_def)
next
  fix s offers
  assume s: "s \<in> set msgs" and o: "py_getitem s ''offers'' = Inr (JArr offers)"
  from assms s have sm: "snapshot_message s"
    by (simp add: list_all_iff)
  then obtain kvs where k: "s = JObj kvs"
    by (cases s) auto
  from sm o obtain ts where o': "map_of kvs ''offers'' = Some (JArr offers)"
      and t: "map_of kvs ''timestamp'' = Some ts" and all: "list_all is_object offers"
    unfolding k by (auto split: option.splits json.splits)
  have rows: "spec_rows s = map (spec_inject ts (map_of kvs ''merchant_id'')) offers"
    unfolding k using o' t by simp
  show "length (spec_rows s) = length offers"
    by (simp add: rows)
  fix i
  assume i: "i < length offers"
  then have obj: "is_object (offers ! i)"
    using all by (simp add: list_all_length)
  have r: "spec_rows s ! i = spec_inject ts (map_of kvs ''merchant_id'') (offers ! i)"
    using i by (simp add: rows)
  show "py_getitem (spec_rows s ! i) ''timestamp'' = py_getitem s ''timestamp''"
    unfolding r using t by (simp add: k spec_inject_fields(1) [OF obj])
  show "py_getitem (spec_rows s ! i) ''triggering_merchant_id'' = py_getitem s ''merchant_id''"
    if "py_in ''merchant_id'' s = Inr True"
    unfolding r using that by (auto simp: k spec_inject_fields(2) [OF obj])
  show "py_getitem (spec_rows s ! i) k = py_getitem (offers ! i) k"
    if "k \<noteq> ''timestamp'' \<and> k \<noteq> ''triggering_merchant_id''" for k
    unfolding r using that by (simp add: spec_inject_fields(3) [OF obj])
qed

lemma demo_snapshot_ok: "list_all snapshot_message [demo_snapshot]"
  by (simp add: demo_snapshot_def)

theorem shaper_one_row_per_offer_witness:
  "list_all snapshot_message [demo_snapshot]
   \<and> market_situation_shaper [demo_snapshot] =
      Inr [JObj [(''offer_id'', JInt 1), (''price'', JInt 10), (''timestamp'', JInt 42),
                 (''triggering_merchant_id'', JStr ''m1'')],
           JObj [(''offer_id'', JInt 2), (''price'', JInt 20), (''timestamp'', JInt 42),
                 (''triggering_merchant_id'', JStr ''m1'')],
           JObj [(''offer_id'', JInt 3), (''merchant_id'', JStr ''m2''), (''timestamp'', JInt 42),
                 (''triggering_merchant_id'', JStr ''m1'')]]"
  using shaper_one_row_per_offer [OF demo_snapshot_ok] demo_snapshot_ok
  by (simp add: demo_snapshot_def)

section \<open>Properties of the handler\<close>

lemma init_scan_value:
  "\<exists>c'. init_scan b ts d eo c =
     Inr (foldl (\<lambda>d t. AList.update t [] d) d ts,
          (\<lambda>t. if t \<in> set ts then Some (int (log_end b t)) else eo t), c')"
proof (induction ts arbitrary: d eo c)
  case Nil
  show ?case by simp
next
  case (Cons t ts)
  have p: "position (seek_to_end b (assign [t] c)) t = Inr (int (log_end b t))"
    by (simp add: position_def seek_to_end_def assign_def)
  obtain c' where "init_scan b ts (AList.update t [] d) (eo(t \<mapsto> int (log_end b t)))
        (seek_to_end b (assign [t] c)) =
     Inr (foldl (\<lambda>d t. AList.update t [] d) (AList.update t [] d) ts,
          (\<lambda>x. if x \<in> set ts then Some (int (log_end b x)) else (eo(t \<mapsto> int (log_end b t))) x), c')"
    using Cons.IH by blast
  moreover have "(\<lambda>x. if x \<in> set ts then Some (int (log_end b x)) else (eo(t \<mapsto> int (log_end b t))) x)
      = (\<lambda>x. if x \<in> set (t # ts) then Some (int (log_end b x)) else eo x)"
    by auto
  ultimately show ?case
    by (simp add: p Let_def)
qed

lemma init_seek_value:
  assumes "set ts \<subseteq> set (assigned c)" and "\<forall>t\<in>set ts. eo t = Some (e t)"
  shows "init_seek ts eo c =
     Inr (c\<lparr>positions := (\<lambda>t. if t \<in> set ts then Some (max 0 (e t - 100)) else positions c t)\<rparr>)"
  using assms
proof (induction ts arbitrary: c)
  case Nil
  show ?case by simp
next
  case (Cons t ts)
  let ?c' = "c\<lparr>positions := (positions c)(t \<mapsto> max 0 (e t - 100))\<rparr>"
  have s: "seek t (max 0 (e t - 100)) c = Inr ?c'"
    using Cons.prems by (simp add: seek_def)
  have "init_seek ts eo ?c' =
     Inr (?c'\<lparr>positions := (\<lambda>x. if x \<in> set ts then Some (max 0 (e x - 100)) else positions ?c' x)\<rparr>)"
    using Cons.prems by (intro Cons.IH) auto
  moreover have "(\<lambda>x. if x \<in> set ts then Some (max 0 (e x - 100)) else positions ?c' x)
      = (\<lambda>x. if x \<in> set (t # ts) then Some (max 0 (e x - 100)) else positions c x)"
    by auto
  ultimately show ?case
    using Cons.prems by (simp add: s)
qed

lemma fresh_dumps:
  assumes "distinct (pre @ ts)"
  shows "foldl (\<lambda>d t. AList.update t ([] :: json list) d) (map (\<lambda>t. (t, [])) pre) ts
     = map (\<lambda>t. (t, [])) (pre @ ts)"
  using assms
proof (induction ts arbitrary: pre)
  case Nil
  show ?case by simp
next
  case (Cons t ts)
  have "t \<notin> set pre"
    using Cons.prems by auto
  then have "AList.update t ([] :: json list) (map (\<lambda>t. (t, [])) pre) = map (\<lambda>t. (t, [])) (pre @ [t])"
    by (induction pre) auto
  then show ?case
    unfolding foldl_Cons using Cons.IH [of "pre @ [t]"] Cons.prems by simp
qed

lemma distinct_topics: "distinct topics"
  by (simp add: topics_def)

lemma KafkaHandler_init_value:
  "KafkaHandler_init b =
     Inr (\<lparr>dumps = map (\<lambda>t. (t, [])) topics, sent = []\<rparr>,
          (\<lambda>t. if t \<in> set topics then Some (int (log_end b t)) else None),
          \<lparr>assigned = topics,
           positions = (\<lambda>t. if t \<in> set topics then Some (max 0 (int (log_end b t) - 100)) else None)\<rparr>)"
proof -
  obtain c' where scan: "init_scan b topics [] Map.empty \<lparr>assigned = [], positions = Map.empty\<rparr> =
     Inr (foldl (\<lambda>d t. AList.update t [] d) [] topics,
          (\<lambda>t. if t \<in> set topics then Some (int (log_end b t)) else None), c')"
    using init_scan_value by blast
  have d: "foldl (\<lambda>d t. AList.update t ([] :: json list) d) [] topics = map (\<lambda>t. (t, [])) topics"
    using fresh_dumps [of "[]" topics] distinct_topics by simp
  let ?c = "\<lparr>assigned = topics, positions = Map.empty\<rparr>"
  have "init_seek topics (\<lambda>t. if t \<in> set topics then Some (int (log_end b t)) else None) ?c =
     Inr (?c\<lparr>positions :=
        (\<lambda>t. if t \<in> set topics then Some (max 0 (int (log_end b t) - 100))
             else positions ?c t)\<rparr>)"
    by (rule init_seek_value) simp_all
  then have seek: "init_seek topics (\<lambda>t. if t \<in> set topics then Some (int (log_end b t)) else None) ?c =
     Inr \<lparr>assigned = topics,
          positions = (\<lambda>t. if t \<in> set topics then Some (max 0 (int (log_end b t) - 100)) else None)\<rparr>"
    by (simp cong: if_cong)
  show ?thesis
    by (simp add: KafkaHandler_init_def scan d seek assign_def)
qed

lemma run_step_accepted:
  "run_step loads h msg =
     (case accepted loads msg of
        None \<Rightarrow> h
      | Some out \<Rightarrow>
          (case map_of (dumps h) (msg_topic msg) of
             None \<Rightarrow> h
           | Some dq \<Rightarrow>
               h\<lparr>dumps := AList.update (msg_topic msg) (deque_append 100 dq out) (dumps h),
                 sent := sent h @ [Broadcast (msg_topic msg) (Dumped out)]\<rparr>))"
  by (simp add: run_step_def accepted_def Let_def split: option.split sum.split bool.split)

lemma run_step_keys: "map fst (dumps (run_step loads h msg)) = map fst (dumps h)"
proof -
  have "map_of (dumps h) k = Some dq \<Longrightarrow> map fst (AList.update k v (dumps h)) = map fst (dumps h)"
    for k dq v
    using map_of_eq_None_iff [of "dumps h" k] by (simp add: update_keys)
  then show ?thesis
    by (simp add: run_step_accepted split: option.split)
qed

lemma run_keys: "map fst (dumps (run loads h msgs)) = map fst (dumps h)"
  unfolding run_def by (induction msgs arbitrary: h) (simp_all add: run_step_keys)

lemma run_step_buffer:
  "map_of (dumps (run_step loads h msg)) t =
     (case map_of (dumps h) t of
        None \<Rightarrow> None
      | Some dq \<Rightarrow>
          Some (if msg_topic msg = t
                then (case accepted loads msg of None \<Rightarrow> dq | Some out \<Rightarrow> deque_append 100 dq out)
                else dq))"
  by (simp add: run_step_accepted update_conv' split: option.split)

lemma accepted_outputs_Cons:
  "accepted_outputs loads t (m # ms) =
     (if msg_topic m = t
      then (case accepted loads m of
              None \<Rightarrow> accepted_outputs loads t ms
            | Some out \<Rightarrow> out # accepted_outputs loads t ms)
      else accepted_outputs loads t ms)"
  by (simp add: accepted_outputs_def List.map_filter_simps split: option.split)

lemma run_buffer:
  assumes "map_of (dumps h) t = Some dq"
  shows "map_of (dumps (run loads h msgs)) t
     = Some (foldl (deque_append 100) dq (accepted_outputs loads t msgs))"
  using assms
proof (induction msgs arbitrary: h dq)
  case Nil
  then show ?case by (simp add: run_def accepted_outputs_def List.map_filter_simps)
next
  case (Cons m ms)
  let ?dq = "if msg_topic m = t
      then (case accepted loads m of None \<Rightarrow> dq | Some out \<Rightarrow> deque_append 100 dq out)
      else dq"
  have "map_of (dumps (run_step loads h m)) t = Some ?dq"
    using Cons.prems by (simp add: run_step_buffer)
  from Cons.IH [OF this]
  have "map_of (dumps (run loads (run_step loads h m) ms)) t
      = Some (foldl (deque_append 100) ?dq (accepted_outputs loads t ms))" .
  moreover have "run loads h (m # ms) = run loads (run_step loads h m) ms"
    by (simp add: run_def)
  ultimately show ?case
    by (simp add: accepted_outputs_Cons split: option.split)
qed

lemma deque_fold:
  assumes "length dq \<le> n" and "0 < n"
  shows "foldl (deque_append n) dq xs = drop (length (dq @ xs) - n) (dq @ xs)"
  using assms
proof (induction xs arbitrary: dq)
  case Nil
  then show ?case by simp
next
  case (Cons x xs)
  show ?case
  proof (cases "length dq < n")
    case True
    then have d: "deque_append n dq x = dq @ [x]"
      by (simp add: deque_append_def)
    have "length (dq @ [x]) \<le> n"
      using True by simp
    from Cons.IH [OF this assms(2)] show ?thesis
      by (simp add: d)
  next
    case False
    with Cons.prems have l: "length dq = n"
      by simp
    then have d: "deque_append n dq x = tl dq @ [x]"
      using assms(2) by (cases dq) (auto simp: deque_append_def)
    have "length (tl dq @ [x]) \<le> n"
      using l assms(2) by (cases dq) auto
    from Cons.IH [OF this assms(2)] have "foldl (deque_append n) (tl dq @ [x]) xs
        = drop (length (tl dq @ [x] @ xs) - n) (tl dq @ [x] @ xs)"
      by simp
    moreover have "drop (length (tl dq @ [x] @ xs) - n) (tl dq @ [x] @ xs)
        = drop (length (dq @ x # xs) - n) (dq @ x # xs)"
      using l assms(2) by (cases dq) (auto simp: Suc_diff_le)
    ultimately show ?thesis
      by (simp add: d)
  qed
qed

lemma run_step_sent:
  assumes "map fst (dumps h) = topics"
  shows "sent (run_step loads h m) = sent h @ broadcasts loads [m]"
proof -
  have "fst ` set (dumps h) = set topics"
    using assms by (simp flip: set_map)
  then have "map_of (dumps h) (msg_topic m) = None \<longleftrightarrow> msg_topic m \<notin> set topics"
    using map_of_eq_None_iff [of "dumps h" "msg_topic m"] by simp
  then show ?thesis
    by (auto simp: run_step_accepted broadcasts_def List.map_filter_simps split: option.splits)
qed

lemma broadcasts_Cons: "broadcasts loads (m # ms) = broadcasts loads [m] @ broadcasts loads ms"
  by (simp add: broadcasts_def List.map_filter_simps split: option.split)

lemma run_sent:
  assumes "map fst (dumps h) = topics"
  shows "sent (run loads h msgs) = sent h @ broadcasts loads msgs"
  using assms
proof (induction msgs arbitrary: h)
  case Nil
  show ?case by (simp add: run_def broadcasts_def List.map_filter_simps)
next
  case (Cons m ms)
  have k: "map fst (dumps (run_step loads h m)) = topics"
    using Cons.prems by (simp add: run_step_keys)
  have "run loads h (m # ms) = run loads (run_step loads h m) ms"
    by (simp add: run_def)
  then show ?case
    using Cons.IH [OF k] run_step_sent [OF Cons.prems, of loads m] broadcasts_Cons [of loads m ms]
    by simp
qed


lemma init_handler:
  assumes "KafkaHandler_init b = Inr (h0, eo, c)"
  shows "h0 = fresh_handler"
    and "eo = (\<lambda>t. if t \<in> set topics then Some (int (log_end b t)) else None)"
    and "c = \<lparr>assigned = topics,
           positions = (\<lambda>t. if t \<in> set topics then Some (max 0 (int (log_end b t) - 100)) else None)\<rparr>"
  using assms unfolding KafkaHandler_init_value fresh_handler_def by simp_all

lemma fresh_handler_buffer:
  "map_of (dumps fresh_handler) t = (if t \<in> set topics then Some [] else None)"
  by (simp add: fresh_handler_def map_of_map_restrict restrict_map_def)

lemma fresh_handler_keys: "map fst (dumps fresh_handler) = topics"
  by (simp add: fresh_handler_def comp_def)

lemma reachable_buffer:
  "map_of (dumps (run loads fresh_handler msgs)) t =
     (if t \<in> set topics
      then Some (drop (length (accepted_outputs loads t msgs) - 100) (accepted_outputs loads t msgs))
      else None)"
proof (cases "t \<in> set topics")
  case True
  then have "map_of (dumps fresh_handler) t = Some []"
    by (simp add: fresh_handler_buffer)
  from run_buffer [OF this, of loads msgs] deque_fold [of "[]" 100 "accepted_outputs loads t msgs"]
  show ?thesis
    using True by simp
next
  case False
  have "map fst (dumps (run loads fresh_handler msgs)) = topics"
    by (simp add: run_keys fresh_handler_keys)
  then have "fst ` set (dumps (run loads fresh_handler msgs)) = set topics"
    by (simp flip: set_map)
  then show ?thesis
    using False map_of_eq_None_iff [of "dumps (run loads fresh_handler msgs)" t] by simp
qed



lemma demo_accepted_profit:
  "accepted_outputs loads_table ''profit'' demo_msgs =
     [JObj [(''topic'', JStr ''profit''), (''timestamp'', JInt 1), (''value'', JObj [])],
      JObj [(''topic'', JStr ''profit''), (''timestamp'', JInt 3),
            (''value'', JObj [(''http_code'', JInt 200)])]]"
  by (simp add: accepted_outputs_def demo_msgs_def loads_table_def accepted_def decode_value_def
      http_code_rejected_def make_output_def List.map_filter_simps)

lemma init_projection:
  "map_sum id fst (KafkaHandler_init b) = Inr fresh_handler"
  by (simp add: KafkaHandler_init_value fresh_handler_def)


lemma accepted_not_rejected:
  assumes "accepted loads m = Some out"
  shows "\<not> carries_rejected out"
  using assms
  by (auto simp: accepted_def carries_rejected_def make_output_def split: sum.splits if_splits)

lemma accepted_outputs_set:
  "out \<in> set (accepted_outputs loads t msgs) \<Longrightarrow> \<exists>m. accepted loads m = Some out"
  by (auto simp: accepted_outputs_def List.map_filter_def)

lemma reachable_buffer_clean:
  assumes "map_of (dumps (run loads fresh_handler msgs)) t = Some dq" and "out \<in> set dq"
  shows "\<not> carries_rejected out"
proof -
  from assms(1) have "dq = drop (length (accepted_outputs loads t msgs) - 100)
      (accepted_outputs loads t msgs)"
    by (simp add: reachable_buffer split: if_splits)
  with assms(2) have "out \<in> set (accepted_outputs loads t msgs)"
    by (auto dest: in_set_dropD)
  then show ?thesis
    using accepted_outputs_set accepted_not_rejected by blast
qed

lemma reachable_sent:
  "sent (run loads fresh_handler msgs) = broadcasts loads msgs"
  using run_sent [OF fresh_handler_keys, of loads msgs] by (simp add: fresh_handler_def)

lemma broadcasts_clean:
  assumes "Broadcast t (Dumped out) \<in> set (broadcasts loads msgs)"
  shows "\<not> carries_rejected out"
proof -
  from assms obtain m where "accepted loads m = Some out"
    by (auto simp: broadcasts_def List.map_filter_def split: if_splits)
  then show ?thesis
    by (rule accepted_not_rejected)
qed

lemma on_connect_sent:
  "sent (on_connect h) = sent h @ map (\<lambda>(t, dq). Reply t (Listed dq)) (dumps h)"
  by (cases "dumps h = []") (simp_all add: on_connect_def)


lemma reachable_reply:
  assumes "Reply t (Listed dq) \<in> set (sent (on_connect (run loads fresh_handler msgs)))"
  shows "map_of (dumps (run loads fresh_handler msgs)) t = Some dq"
proof -
  let ?h = "run loads fresh_handler msgs"
  have "Reply t (Listed dq) \<notin> set (broadcasts loads msgs)"
    by (auto simp: broadcasts_def List.map_filter_def)
  with assms have "(t, dq) \<in> set (dumps ?h)"
    by (auto simp: on_connect_sent reachable_sent)
  moreover have "distinct (map fst (dumps ?h))"
    by (simp add: run_keys fresh_handler_keys distinct_topics)
  ultimately show ?thesis
    by simp
qed

lemma rejected_step:
  assumes "decode_value loads (msg_value msg) = Inr j" and "py_getitem j ''http_code'' = Inr v"
    and "\<not> py_eq_int v 200"
  shows "run_step loads h msg = h" and "carries_rejected (make_output msg j)"
proof -
  from assms(2) obtain kvs where j: "j = JObj kvs" and v: "map_of kvs ''http_code'' = Some v"
    by (cases j) (auto split: option.splits)
  have r: "http_code_rejected j = Inr True"
    using assms(3) by (simp add: http_code_rejected_def j v)
  show "run_step loads h msg = h"
    by (simp add: run_step_def assms(1) r)
  show "carries_rejected (make_output msg j)"
    by (simp add: carries_rejected_def make_output_def r)
qed

text \<open>
  Claim C3. A record whose payload has an \<open>http_code\<close> that is not 200 leaves the
  handler as it is: nothing is appended and nothing is broadcast. No buffer, no broadcast
  and no snapshot sent on a connection ever holds an output with such a payload.
\<close>

theorem rejected_http_code_never_stored:
  "(decode_value loads (msg_value msg) = Inr j \<and> py_getitem j ''http_code'' = Inr v \<and> \<not> py_eq_int v 200 \<longrightarrow>
      run_step loads h msg = h \<and> carries_rejected (make_output msg j))
   \<and> (KafkaHandler_init b = Inr (h0, eo, c) \<longrightarrow>
        (\<forall>t dq out. map_of (dumps (run loads h0 msgs)) t = Some dq \<and> out \<in> set dq \<longrightarrow>
            \<not> carries_rejected out)
        \<and> (\<forall>t out. Broadcast t (Dumped out) \<in> set (sent (run loads h0 msgs)) \<longrightarrow>
            \<not> carries_rejected out)
        \<and> (\<forall>t dq out. Reply t (Listed dq) \<in> set (sent (on_connect (run loads h0 msgs)))
              \<and> out \<in> set dq \<longrightarrow> \<not> carries_rejected out))"
proof -
  have step: "run_step loads h msg = h \<and> carries_rejected (make_output msg j)"
    if "decode_value loads (msg_value msg) = Inr j \<and> py_getitem j ''http_code'' = Inr v \<and> \<not> py_eq_int v 200"
    using that rejected_step by blast
  have reach: "(\<forall>t dq out. map_of (dumps (run loads h0 msgs)) t = Some dq \<and> out \<in> set dq \<longrightarrow>
            \<not> carries_rejected out)
        \<and> (\<forall>t out. Broadcast t (Dumped out) \<in> set (sent (run loads h0 msgs)) \<longrightarrow>
            \<not> carries_rejected out)
        \<and> (\<forall>t dq out. Reply t (Listed dq) \<in> set (sent (on_connect (run loads h0 msgs)))
              \<and> out \<in> set dq \<longrightarrow> \<not> carries_rejected out)"
    if "KafkaHandler_init b = Inr (h0, eo, c)"
  proof -
    from that have h0: "h0 = fresh_handler"
      by (rule init_handler(1))
    have "\<forall>t dq out. map_of (dumps (run loads h0 msgs)) t = Some dq \<and> out \<in> set dq \<longrightarrow>
            \<not> carries_rejected out"
      unfolding h0 using reachable_buffer_clean by blast
    moreover have "\<forall>t out. Broadcast t (Dumped out) \<in> set (sent (run loads h0 msgs)) \<longrightarrow>
            \<not> carries_rejected out"
      unfolding h0 reachable_sent using broadcasts_clean by blast
    moreover have "\<forall>t dq out. Reply t (Listed dq) \<in> set (sent (on_connect (run loads h0 msgs)))
              \<and> out \<in> set dq \<longrightarrow> \<not> carries_rejected out"
      unfolding h0 using reachable_reply reachable_buffer_clean by blast
    ultimately show ?thesis
      by (intro conjI)
  qed
  from step have a: "decode_value loads (msg_value msg) = Inr j \<and> py_getitem j ''http_code'' = Inr v
        \<and> \<not> py_eq_int v 200 \<longrightarrow>
      run_step loads h msg = h \<and> carries_rejected (make_output msg j)"
    by (rule impI)
  from reach show ?thesis
    by (intro conjI [OF a] impI)
qed

lemma init_demo:
  "KafkaHandler_init demo_broker =
     Inr (fresh_handler,
          (\<lambda>t. if t \<in> set topics then Some (int (log_end demo_broker t)) else None),
          \<lparr>assigned = topics,
           positions = (\<lambda>t. if t \<in> set topics then Some (max 0 (int (log_end demo_broker t) - 100)) else None)\<rparr>)"
  by (simp add: KafkaHandler_init_value fresh_handler_def)

theorem rejected_http_code_never_stored_witness:
  "decode_value loads_table (msg_value (demo_msgs ! 1)) = Inr (JObj [(''http_code'', JInt 404)])
   \<and> py_getitem (JObj [(''http_code'', JInt 404)]) ''http_code'' = Inr (JInt 404)
   \<and> \<not> py_eq_int (JInt 404) 200
   \<and> run_step loads_table fresh_handler (demo_msgs ! 1) = fresh_handler
   \<and> map_sum id fst (KafkaHandler_init demo_broker) = Inr fresh_handler
   \<and> map_of (dumps (run loads_table fresh_handler demo_msgs)) ''profit'' =
      Some [JObj [(''topic'', JStr ''profit''), (''timestamp'', JInt 1), (''value'', JObj [])],
            JObj [(''topic'', JStr ''profit''), (''timestamp'', JInt 3),
                  (''value'', JObj [(''http_code'', JInt 200)])]]
   \<and> \<not> carries_rejected (JObj [(''topic'', JStr ''profit''), (''timestamp'', JInt 3),
                  (''value'', JObj [(''http_code'', JInt 200)])])"
proof -
  have a: "decode_value loads_table (msg_value (demo_msgs ! 1)) = Inr (JObj [(''http_code'', JInt 404)])"
    by (simp add: demo_msgs_def loads_table_def decode_value_def)
  have b: "py_getitem (JObj [(''http_code'', JInt 404)]) ''http_code'' = Inr (JInt 404)"
    by simp
  have c: "\<not> py_eq_int (JInt 404) 200"
    by simp
  have d: "map_of (dumps (run loads_table fresh_handler demo_msgs)) ''profit'' =
      Some [JObj [(''topic'', JStr ''profit''), (''timestamp'', JInt 1), (''value'', JObj [])],
            JObj [(''topic'', JStr ''profit''), (''timestamp'', JInt 3),
                  (''value'', JObj [(''http_code'', JInt 200)])]]"
    by (simp add: reachable_buffer demo_accepted_profit topics_def)
  note inst = rejected_http_code_never_stored [of loads_table "demo_msgs ! 1"
      "JObj [(''http_code'', JInt 404)]" "JInt 404" fresh_handler demo_broker fresh_handler _ _ demo_msgs]
  from inst [THEN conjunct1, THEN mp, OF conjI [OF a conjI [OF b c]]]
  have e: "run_step loads_table fresh_handler (demo_msgs ! 1) = fresh_handler"
    by (rule conjunct1)
  note r = inst [THEN conjunct2, THEN mp, OF init_demo, THEN conjunct1, THEN spec, THEN spec,
      THEN spec, THEN mp]
  have f: "\<not> carries_rejected (JObj [(''topic'', JStr ''profit''), (''timestamp'', JInt 3),
                  (''value'', JObj [(''http_code'', JInt 200)])])"
    by (rule r [of "''profit''"
          "[JObj [(''topic'', JStr ''profit''), (''timestamp'', JInt 1), (''value'', JObj [])],
            JObj [(''topic'', JStr ''profit''), (''timestamp'', JInt 3),
                  (''value'', JObj [(''http_code'', JInt 200)])]]"])
      (simp add: d)
  show ?thesis
    using a b c d e f by (simp add: init_projection)
qed













end
